theory Spec2Isabelle
  imports Main "HOL-Library.AList" "HOL-Library.Char_ord" "HOL-Library.List_Lexorder"
    "HOL-Library.Product_Lexorder" "HOL-Library.Sublist"
begin

section \<open>Configuration documents (shared/utils.py, ConfigManager)\<close>

text \<open>
  A configuration document is what \<^verbatim>\<open>json.load\<close> yields and \<^verbatim>\<open>json.dump\<close> writes: a tree
  of values. The only distinction \<^verbatim>\<open>ConfigManager\<close> makes is
  \<^verbatim>\<open>isinstance(value, dict)\<close>, so every other value (null, booleans, numbers, strings,
  arrays) is a scalar for it. A Python \<^verbatim>\<open>dict\<close> keeps insertion order; it is an
  association list here, read with \<open>map_of\<close>, written with \<open>AList.update\<close> (which
  replaces in place or appends, as item assignment does) and \<open>AList.delete\<close>.
  \<^verbatim>\<open>self._config\<close> is declared \<^verbatim>\<open>Dict[str, Any]\<close>, so the root is a dict.
  This is the document by value, as a tree; the store further on has the dicts as
  objects, which \<^verbatim>\<open>set\<close> stores by reference and changes in place.
\<close>

datatype json =
    JNull
  | JBool bool
  | JNum int
  | JStr string
  | JList "json list"
  | JDict "(string \<times> json) list"

type_synonym dict = "(string \<times> json) list"

text \<open>
  \<^verbatim>\<open>s.split(sep)\<close> for a one-character separator: one more piece than there are
  separators, empty pieces kept. \<^verbatim>\<open>key.split('.')\<close> is \<open>split_dot\<close>.
\<close>

fun split_char :: "char \<Rightarrow> string \<Rightarrow> string list" where
  "split_char sep [] = [[]]"
| "split_char sep (c # cs) =
     (let pieces = split_char sep cs
      in if c = sep then [] # pieces else (c # hd pieces) # tl pieces)"

definition split_dot :: "string \<Rightarrow> string list" where
  "split_dot key = split_char (CHR ''.'') key"

text \<open>
  The loop of \<^verbatim>\<open>get\<close>:
  \<^verbatim>\<open>
    for k in keys:
        if isinstance(value, dict) and k in value:
            value = value[k]
        else:
            return default
    return value
  \<close>
\<close>

fun get_loop :: "json \<Rightarrow> string list \<Rightarrow> json \<Rightarrow> json" where
  "get_loop val [] dflt = val"
| "get_loop val (k # ks) dflt =
     (case val of
        JDict d \<Rightarrow> (case map_of d k of Some v \<Rightarrow> get_loop v ks dflt | None \<Rightarrow> dflt)
      | _ \<Rightarrow> dflt)"

definition get :: "dict \<Rightarrow> string \<Rightarrow> json \<Rightarrow> json" where
  "get config key dflt = get_loop (JDict config) (split_dot key) dflt"

text \<open>
  The loop of \<^verbatim>\<open>set\<close> walks \<^verbatim>\<open>keys[:-1]\<close> and then assigns \<^verbatim>\<open>keys[-1]\<close>:
  \<^verbatim>\<open>
    for k in keys[:-1]:
        if k not in config or not isinstance(config[k], dict):
            config[k] = {}
        config = config[k]
    config[keys[-1]] = value
  \<close>
  \<open>descend config k\<close> is the dict the loop continues in: \<^verbatim>\<open>config[k]\<close> when that is a
  dict, the new empty one otherwise. The source changes the nested dicts in place; the
  model rebuilds the document around the changed one. The list of keys is never empty
  (\<^verbatim>\<open>split\<close> returns at least one segment); on the empty list \<^verbatim>\<open>keys[-1]\<close> would
  raise, which is \<open>None\<close> here.
\<close>

definition descend :: "dict \<Rightarrow> string \<Rightarrow> dict" where
  "descend config k = (case map_of config k of Some (JDict d) \<Rightarrow> d | _ \<Rightarrow> [])"

fun set_loop :: "dict \<Rightarrow> string list \<Rightarrow> json \<Rightarrow> dict option" where
  "set_loop config [] val = None"
| "set_loop config [k] val = Some (AList.update k val config)"
| "set_loop config (k # ks) val =
     (case set_loop (descend config k) ks val of
        None \<Rightarrow> None
      | Some sub \<Rightarrow> Some (AList.update k (JDict sub) config))"

definition set_key :: "dict \<Rightarrow> string \<Rightarrow> json \<Rightarrow> dict option" where
  "set_key config key val = set_loop config (split_dot key) val"



text \<open>
  Two notions used to state properties of documents: \<open>resolve\<close> follows a path as
  \<^verbatim>\<open>get\<close> does and tells an absent path (\<open>None\<close>) from a stored value; \<open>is_dict\<close>
  is \<^verbatim>\<open>isinstance(value, dict)\<close>.
\<close>

fun resolve :: "json \<Rightarrow> string list \<Rightarrow> json option" where
  "resolve val [] = Some val"
| "resolve val (k # ks) =
     (case val of
        JDict d \<Rightarrow> (case map_of d k of Some v \<Rightarrow> resolve v ks | None \<Rightarrow> None)
      | _ \<Rightarrow> None)"

fun is_dict :: "json \<Rightarrow> bool" where
  "is_dict (JDict d) = True"
| "is_dict _ = False"

subsection \<open>Loading\<close>

text \<open>
  What the configuration file is when \<^verbatim>\<open>load\<close> runs. Reading and parsing are the
  standard library's (\<^verbatim>\<open>open\<close>, \<^verbatim>\<open>json.load\<close>); their four outcomes are the four
  constructors: no such file, a file that cannot be read or decoded (\<^verbatim>\<open>OSError\<close>,
  \<^verbatim>\<open>UnicodeDecodeError\<close>), a file whose text is not JSON (\<^verbatim>\<open>json.JSONDecodeError\<close>),
  and a file holding a document.
\<close>

datatype config_file = NoFile | NotReadable | NotJson | Holds dict

datatype error =
    FileNotFoundError
  | JSONDecodeError
  | ReadError
  | RuntimeError
  | ValueError

fun exists_file :: "config_file \<Rightarrow> bool" where
  "exists_file NoFile = False"
| "exists_file _ = True"

text \<open>
  \<^verbatim>\<open>load_json_config\<close>: raises \<^verbatim>\<open>FileNotFoundError\<close> when the path does not exist,
  otherwise returns \<^verbatim>\<open>json.load(f)\<close>, whose exceptions it lets through.
\<close>

fun load_json_config :: "config_file \<Rightarrow> error + dict" where
  "load_json_config NoFile = Inl FileNotFoundError"
| "load_json_config NotReadable = Inl ReadError"
| "load_json_config NotJson = Inl JSONDecodeError"
| "load_json_config (Holds d) = Inr d"

text \<open>
  \<^verbatim>\<open>
    def load(self) -> None:
        if self.config_file.exists():
            try:
                self._config = load_json_config(self.config_file)
            except (json.JSONDecodeError, FileNotFoundError):
                self._config = {}
  \<close>
  The result is the new \<^verbatim>\<open>self._config\<close>, or the exception that leaves \<^verbatim>\<open>load\<close>.
\<close>

definition load :: "config_file \<Rightarrow> dict \<Rightarrow> error + dict" where
  "load file config =
     (if exists_file file then
        (case load_json_config file of
           Inr d \<Rightarrow> Inr d
         | Inl JSONDecodeError \<Rightarrow> Inr []
         | Inl FileNotFoundError \<Rightarrow> Inr []
         | Inl e \<Rightarrow> Inl e)
      else Inr config)"

text \<open>\<^verbatim>\<open>__init__\<close>: \<^verbatim>\<open>self._config = {}\<close>, then \<^verbatim>\<open>self.load()\<close>.\<close>

definition init :: "config_file \<Rightarrow> error + dict" where
  "init file = load file []"

subsection \<open>The store: dicts as objects\<close>

text \<open>
  \<^verbatim>\<open>set\<close> stores the caller's value itself and changes the nested dicts in place, so a
  dict object that is stored at two positions is changed at both. Here every dict is an
  object of a heap, known by its address (its index in the heap), and a value is either
  a reference to a dict object or a value that is not a dict. \<^verbatim>\<open>self._config\<close> is the
  address \<open>root\<close>. Every reference held in a heap of the program points to an object
  of that heap.
\<close>

datatype scalar = SNull | SBool bool | SNum int | SStr string | SList "json list"

datatype pyval = DictRef nat | Scalar scalar

type_synonym heap = "(string \<times> pyval) list list"

fun ref_get_loop :: "heap \<Rightarrow> pyval \<Rightarrow> string list \<Rightarrow> pyval \<Rightarrow> pyval" where
  "ref_get_loop h val [] dflt = val"
| "ref_get_loop h val (k # ks) dflt =
     (case val of
        DictRef a \<Rightarrow>
          (case map_of (h ! a) k of Some v \<Rightarrow> ref_get_loop h v ks dflt | None \<Rightarrow> dflt)
      | Scalar s \<Rightarrow> dflt)"

definition ref_get :: "heap \<Rightarrow> nat \<Rightarrow> string \<Rightarrow> pyval \<Rightarrow> pyval" where
  "ref_get h root key dflt = ref_get_loop h (DictRef root) (split_dot key) dflt"

text \<open>
  The loop of \<^verbatim>\<open>set\<close> on the heap: \<open>config\<close> is the address of the dict the loop is
  in. \<^verbatim>\<open>config[k] = {}\<close> creates a dict object, at the next free address, and stores
  the reference to it; \<^verbatim>\<open>config = config[k]\<close> moves to the dict referred to.
\<close>

fun ref_set_loop :: "heap \<Rightarrow> nat \<Rightarrow> string list \<Rightarrow> pyval \<Rightarrow> heap option" where
  "ref_set_loop h config [] val = None"
| "ref_set_loop h config [k] val = Some (h[config := AList.update k val (h ! config)])"
| "ref_set_loop h config (k # ks) val =
     (case map_of (h ! config) k of
        Some (DictRef b) \<Rightarrow> ref_set_loop h b ks val
      | _ \<Rightarrow>
          ref_set_loop
            (h[config := AList.update k (DictRef (length h)) (h ! config)] @ [[]])
            (length h) ks val)"

definition ref_set :: "heap \<Rightarrow> nat \<Rightarrow> string \<Rightarrow> pyval \<Rightarrow> heap option" where
  "ref_set h root key val = ref_set_loop h root (split_dot key) val"

text \<open>
  A heap in which the dicts reachable from an address form a tree: \<open>realizes h t\<close>
  says that the heap holds, from the address at the top of \<open>t\<close> on, exactly the dicts
  of \<open>t\<close>, each at the address written in \<open>t\<close>; no dict object is stored at two
  positions when the addresses of \<open>t\<close> are distinct.
\<close>

datatype shape = Leaf scalar | Node nat "(string \<times> shape) list"

fun val_of :: "shape \<Rightarrow> pyval" where
  "val_of (Leaf s) = Scalar s"
| "val_of (Node a kvs) = DictRef a"

fun addrs :: "shape \<Rightarrow> nat list" where
  "addrs (Leaf s) = []"
| "addrs (Node a kvs) = a # concat (map (\<lambda>(k, t). addrs t) kvs)"

fun realizes :: "heap \<Rightarrow> shape \<Rightarrow> bool" where
  "realizes h (Leaf s) \<longleftrightarrow> True"
| "realizes h (Node a kvs) \<longleftrightarrow>
     a < length h \<and> h ! a = map (\<lambda>(k, t). (k, val_of t)) kvs \<and>
     (\<forall>(k, t) \<in> set kvs. realizes h t)"

definition unshared :: "heap \<Rightarrow> nat \<Rightarrow> shape \<Rightarrow> bool" where
  "unshared h root t \<longleftrightarrow>
     realizes h t \<and> distinct (addrs t) \<and> val_of t = DictRef root"

section \<open>Text (Python \<^verbatim>\<open>str\<close> operations used by the launcher)\<close>

text \<open>
  Text is a \<open>string\<close>, one \<open>char\<close> per character: the characters are the code
  points below 256. On these, \<^verbatim>\<open>str.lower\<close> maps \<^verbatim>\<open>A-Z\<close> (65 to 90) and the accented
  capitals (192 to 222, the multiplication sign 215 apart) to the letter 32 places
  further on and leaves every other character as it is; whitespace
  (\<^verbatim>\<open>str.isspace\<close>, and \<^verbatim>\<open>\s\<close> of a regular expression) is the space, the controls 9
  to 13 and 28 to 31, the next-line control 133 and the no-break space 160; a digit
  (\<^verbatim>\<open>\d\<close>) is \<^verbatim>\<open>0-9\<close>.
\<close>

definition lower_char :: "char \<Rightarrow> char" where
  "lower_char c =
     (let n = (of_char c :: nat)
      in if (65 \<le> n \<and> n \<le> 90) \<or> (192 \<le> n \<and> n \<le> 222 \<and> n \<noteq> 215)
         then char_of (n + 32) else c)"

definition lower :: "string \<Rightarrow> string" where
  "lower s = map lower_char s"

definition is_space :: "char \<Rightarrow> bool" where
  "is_space c \<longleftrightarrow>
     c \<in> set [CHR '' '', CHR 0x09, CHR 0x0A, CHR 0x0B, CHR 0x0C, CHR 0x0D,
               CHR 0x1C, CHR 0x1D, CHR 0x1E, CHR 0x1F, CHR 0x85, CHR 0xA0]"

definition is_digit :: "char \<Rightarrow> bool" where
  "is_digit c \<longleftrightarrow> c \<in> set ''0123456789''"

definition strip :: "string \<Rightarrow> string" where
  "strip s = rev (dropWhile is_space (rev (dropWhile is_space s)))"

definition startswith :: "string \<Rightarrow> string \<Rightarrow> bool" where
  "startswith s p \<longleftrightarrow> take (length p) s = p"

definition endswith :: "string \<Rightarrow> string \<Rightarrow> bool" where
  "endswith s p \<longleftrightarrow> length p \<le> length s \<and> drop (length s - length p) s = p"

text \<open>\<^verbatim>\<open>m in s\<close> for strings: \<open>m\<close> starts at some position of \<open>s\<close>.\<close>

fun contains :: "string \<Rightarrow> string \<Rightarrow> bool" where
  "contains [] m \<longleftrightarrow> m = []"
| "contains (c # cs) m \<longleftrightarrow> startswith (c # cs) m \<or> contains cs m"

text \<open>\<^verbatim>\<open>sep.join(parts)\<close>.\<close>

fun join :: "string \<Rightarrow> string list \<Rightarrow> string" where
  "join sep [] = []"
| "join sep [p] = p"
| "join sep (p # ps) = p @ sep @ join sep ps"

text \<open>
  \<^verbatim>\<open>s.split()\<close>: the maximal runs of non-whitespace characters, in order.
\<close>

fun split_ws :: "string \<Rightarrow> string list" where
  "split_ws [] = []"
| "split_ws [c] = (if is_space c then [] else [[c]])"
| "split_ws (c # c' # cs) =
     (let parts = split_ws (c' # cs)
      in if is_space c then parts
         else if is_space c' then [c] # parts
         else (c # hd parts) # tl parts)"

text \<open>
  \<^verbatim>\<open>int(ds)\<close> on a string of decimal digits: the number they write, and
  \<^verbatim>\<open>ValueError\<close> when there are more digits than the interpreter's limit for the
  conversion of a string to an integer (4300).
\<close>

definition digit_value :: "char \<Rightarrow> int" where
  "digit_value c =
     (case map_of (zip ''0123456789'' [0, 1, 2, 3, 4, 5, 6, 7, 8, 9]) c of
        Some n \<Rightarrow> n
      | None \<Rightarrow> 0)"

definition int_of_digits :: "string \<Rightarrow> int" where
  "int_of_digits ds = foldl (\<lambda>n c. 10 * n + digit_value c) 0 ds"

definition py_int :: "string \<Rightarrow> error + int" where
  "py_int ds = (if length ds > 4300 then Inl ValueError else Inr (int_of_digits ds))"

section \<open>Discovery (apps/launcher/main.py, AppDiscovery)\<close>

subsection \<open>The project tree\<close>

text \<open>
  What a scan reads of the file system. A file read with \<^verbatim>\<open>read_text\<close> either gives
  its text or raises (\<open>Unreadable\<close>: a directory, no permission, bytes that are not
  UTF-8). An entry of \<^verbatim>\<open>apps/\<close> has a name, may be a directory, may hold \<^verbatim>\<open>main.py\<close>,
  \<^verbatim>\<open>templates\<close> and \<^verbatim>\<open>static\<close>. An entry of \<^verbatim>\<open>scripts/\<close> has a name and is read as a
  file. \<open>None\<close> for a directory means it does not exist; the entries are in the order
  \<^verbatim>\<open>iterdir\<close> and \<^verbatim>\<open>glob\<close> give them.
\<close>

datatype text_file = Unreadable | Text string

record app_entry =
  entry_name :: string
  is_dir :: bool
  main_py :: "text_file option"
  has_templates :: bool
  has_static :: bool

record script_entry =
  file_name :: string
  file_text :: text_file

record project =
  apps_dir :: "app_entry list option"
  scripts_dir :: "script_entry list option"

text \<open>\<^verbatim>\<open>AppInfo\<close>; paths are written relative to the project root.\<close>

record app_info =
  name :: string
  path :: string
  type :: string
  main_file :: string
  description :: string
  command :: string
  port :: "int option"

subsection \<open>Classification\<close>

text \<open>\<^verbatim>\<open>any(m in content_lower for m in markers)\<close>.\<close>

definition any_in :: "string list \<Rightarrow> string \<Rightarrow> bool" where
  "any_in markers content_lower \<longleftrightarrow> list_ex (\<lambda>m. contains content_lower m) markers"

definition tui_markers :: "string list" where
  "tui_markers = [''from textual'', ''import textual'', ''textual.app'', ''textual.widgets'']"

definition gui_markers :: "string list" where
  "gui_markers = [''from nicegui'', ''import nicegui'', ''nicegui'', ''tkinter'', ''pygame'',
     ''kivy'', ''pyside'', ''pyqt'']"

definition cli_markers :: "string list" where
  "cli_markers = [''from typer'', ''import typer'', ''typer.typer'', ''@app.command'',
     ''click.command'', ''argparse.argumentparser'']"

definition web_markers :: "string list" where
  "web_markers = [''fastapi'', ''from fastapi'', ''flask'', ''django'', ''starlette'']"

text \<open>
  \<^verbatim>\<open>_determine_app_type(content, app_path)\<close>; of \<^verbatim>\<open>app_path\<close> it asks only whether
  \<^verbatim>\<open>templates\<close> or \<^verbatim>\<open>static\<close> exists under it.
\<close>

definition determine_app_type :: "string \<Rightarrow> app_entry \<Rightarrow> string" where
  "determine_app_type content app_path =
     (let content_lower = lower content in
      if any_in tui_markers content_lower then ''tui''
      else if any_in gui_markers content_lower then ''gui''
      else if any_in cli_markers content_lower then ''cli''
      else if any_in web_markers content_lower then ''web''
      else if has_templates app_path \<or> has_static app_path then ''web''
      else ''script'')"

subsection \<open>Description\<close>

definition triple_quote :: string where
  "triple_quote = [CHR 0x22, CHR 0x22, CHR 0x22]"

text \<open>
  The first loop of \<^verbatim>\<open>_extract_description\<close>, over the lines, with its two variables
  \<^verbatim>\<open>in_docstring\<close> and \<^verbatim>\<open>docstring_lines\<close>. \<open>Inl\<close> is the \<^verbatim>\<open>return\<close> inside the loop
  (a docstring opened and closed on one line, \<^verbatim>\<open>stripped[3:-3].strip()\<close>); \<open>Inr\<close> is
  \<^verbatim>\<open>docstring_lines\<close> when the loop ends, by \<^verbatim>\<open>break\<close> or at the last line.
\<close>

fun docstring_loop :: "bool \<Rightarrow> string list \<Rightarrow> string list \<Rightarrow> string + string list" where
  "docstring_loop in_docstring docstring_lines [] = Inr docstring_lines"
| "docstring_loop in_docstring docstring_lines (line # lines) =
     (let stripped = strip line in
      if \<not> in_docstring \<and> startswith stripped triple_quote then
        (if endswith stripped triple_quote \<and> length stripped > 6
         then Inl (strip (take (length stripped - 6) (drop 3 stripped)))
         else docstring_loop True docstring_lines lines)
      else if in_docstring then
        (if endswith stripped triple_quote then Inr docstring_lines
         else docstring_loop in_docstring (docstring_lines @ [stripped]) lines)
      else docstring_loop in_docstring docstring_lines lines)"

text \<open>The second loop: the first line that is a comment of more than two characters.\<close>

fun comment_loop :: "string list \<Rightarrow> string option" where
  "comment_loop [] = None"
| "comment_loop (line # lines) =
     (let stripped = strip line in
      if startswith stripped ''#'' \<and> length stripped > 2 then Some (strip (drop 1 stripped))
      else comment_loop lines)"

definition extract_description :: "string \<Rightarrow> string" where
  "extract_description content =
     (let lines = split_char (CHR 0x0A) content in
      case docstring_loop False [] lines of
        Inl d \<Rightarrow> d
      | Inr docstring_lines \<Rightarrow>
          if docstring_lines \<noteq> [] then strip (join '' '' docstring_lines)
          else (case comment_loop lines of
                  Some d \<Rightarrow> d
                | None \<Rightarrow> ''Python application''))"

subsection \<open>Port\<close>

text \<open>
  The four patterns of \<^verbatim>\<open>_extract_port\<close>, each as the function that gives, for a
  position of the text (the text from there on), the group \<^verbatim>\<open>(\d+)\<close> of the match that
  starts there, if there is one. The patterns are matched with \<^verbatim>\<open>re.IGNORECASE\<close>:
  a literal of the pattern is compared with the lowered text.
\<close>

definition startswith_ci :: "string \<Rightarrow> string \<Rightarrow> bool" where
  "startswith_ci s p \<longleftrightarrow> lower (take (length p) s) = p"

text \<open>
  \<^verbatim>\<open>[=\s]*(\d+)\<close>: the separators are skipped, then the digits taken, both as far as
  they go. No shorter choice can match where the longest does not, since no character
  is both a separator and a digit.
\<close>

definition sep_digits :: "string \<Rightarrow> string option" where
  "sep_digits s =
     (let ds = takeWhile is_digit (dropWhile (\<lambda>c. c = CHR ''='' \<or> is_space c) s)
      in if ds = [] then None else Some ds)"

text \<open>\<^verbatim>\<open>port[=\s]*(\d+)\<close>\<close>

definition port_at :: "string \<Rightarrow> string option" where
  "port_at s = (if startswith_ci s ''port'' then sep_digits (drop 4 s) else None)"

text \<open>
  The match of a pattern that follows a greedy \<^verbatim>\<open>[^)]*\<close> or \<^verbatim>\<open>.*\<close>: the regular
  expression engine gives back one character at a time, so the rest of the pattern
  matches at the last position of the span where it can.
\<close>

fun last_match :: "(string \<Rightarrow> string option) \<Rightarrow> string \<Rightarrow> string option" where
  "last_match p [] = p []"
| "last_match p (c # cs) =
     (case last_match p cs of
        Some g \<Rightarrow> Some g
      | None \<Rightarrow> p (c # cs))"

text \<open>
  \<^verbatim>\<open>\.run\([^)]*port[=\s]*(\d+)\<close>: the span of \<^verbatim>\<open>[^)]*\<close> ends before the first
  \<^verbatim>\<open>)\<close>; the letters, separators and digits that follow are not \<^verbatim>\<open>)\<close> either, so they
  lie in the span too.
\<close>

definition run_port_at :: "string \<Rightarrow> string option" where
  "run_port_at s =
     (if startswith_ci s ''.run(''
      then last_match port_at (takeWhile (\<lambda>c. c \<noteq> CHR '')'') (drop 5 s))
      else None)"

text \<open>\<^verbatim>\<open>--port[=\s]*(\d+)\<close>\<close>

definition dash_port_at :: "string \<Rightarrow> string option" where
  "dash_port_at s = (if startswith_ci s ''--port'' then sep_digits (drop 6 s) else None)"

text \<open>
  \<^verbatim>\<open>uvicorn.*:(\d+)\<close>: \<^verbatim>\<open>.\<close> matches every character but the newline, so the span of
  \<^verbatim>\<open>.*\<close> is the rest of the line; the colon and the digits lie in it.
\<close>

definition colon_digits :: "string \<Rightarrow> string option" where
  "colon_digits s =
     (case s of
        [] \<Rightarrow> None
      | c # cs \<Rightarrow>
          if c = CHR '':'' \<and> takeWhile is_digit cs \<noteq> [] then Some (takeWhile is_digit cs)
          else None)"

definition uvicorn_at :: "string \<Rightarrow> string option" where
  "uvicorn_at s =
     (if startswith_ci s ''uvicorn''
      then last_match colon_digits (takeWhile (\<lambda>c. c \<noteq> CHR 0x0A) (drop 7 s))
      else None)"

definition port_patterns :: "(string \<Rightarrow> string option) list" where
  "port_patterns = [port_at, run_port_at, dash_port_at, uvicorn_at]"

text \<open>
  \<^verbatim>\<open>re.findall(pattern, content)\<close> scans from the left; \<^verbatim>\<open>matches[0]\<close> is the group of
  the first position where the pattern matches, and \<^verbatim>\<open>matches\<close> is empty when there is
  none.
\<close>

fun first_match :: "(string \<Rightarrow> string option) \<Rightarrow> string \<Rightarrow> string option" where
  "first_match p [] = p []"
| "first_match p (c # cs) =
     (case p (c # cs) of
        Some g \<Rightarrow> Some g
      | None \<Rightarrow> first_match p cs)"

text \<open>
  \<^verbatim>\<open>
    for pattern in port_patterns:
        matches = re.findall(pattern, content, re.IGNORECASE)
        if matches:
            try:
                return int(matches[0])
            except ValueError:
                continue
    return None
  \<close>
  \<^verbatim>\<open>matches[0]\<close> is a non-empty string of digits; when \<^verbatim>\<open>int\<close> raises
  \<^verbatim>\<open>ValueError\<close> on it the loop goes on to the next pattern.
\<close>

fun extract_port_loop :: "(string \<Rightarrow> string option) list \<Rightarrow> string \<Rightarrow> int option" where
  "extract_port_loop [] content = None"
| "extract_port_loop (pattern # patterns) content =
     (case first_match pattern content of
        Some ds \<Rightarrow>
          (case py_int ds of
             Inr n \<Rightarrow> Some n
           | Inl e \<Rightarrow> extract_port_loop patterns content)
      | None \<Rightarrow> extract_port_loop patterns content)"

definition extract_port :: "string \<Rightarrow> int option" where
  "extract_port content = extract_port_loop port_patterns content"

subsection \<open>Command\<close>

text \<open>\<^verbatim>\<open>str(relative_path).replace('/', '.')\<close>\<close>

definition dotted :: "string \<Rightarrow> string" where
  "dotted p = map (\<lambda>c. if c = CHR ''/'' then CHR ''.'' else c) p"

text \<open>
  \<^verbatim>\<open>_generate_command(app_path, app_type)\<close>. For a web application it reads
  \<^verbatim>\<open>main.py\<close> again; \<open>main_content\<close> is that text.
\<close>

definition generate_command :: "string \<Rightarrow> string \<Rightarrow> string \<Rightarrow> string" where
  "generate_command relative_path app_type main_content =
     (if app_type = ''web'' then
        (if contains (lower main_content) ''fastapi''
         then ''uv run uvicorn '' @ dotted relative_path @ ''.main:app --reload''
         else ''uv run python -m '' @ dotted relative_path @ ''.main'')
      else if app_type \<in> set [''cli'', ''tui'', ''gui'']
      then ''uv run python -m '' @ dotted relative_path @ ''.main''
      else ''uv run python '' @ relative_path @ ''/main.py'')"

subsection \<open>Candidates and the scan\<close>

text \<open>
  \<^verbatim>\<open>_analyze_app\<close>: \<open>None\<close> when \<^verbatim>\<open>main.py\<close> is absent, and when reading it raises
  (the \<^verbatim>\<open>except Exception\<close> branch).
\<close>

definition analyze_app :: "app_entry \<Rightarrow> app_info option" where
  "analyze_app app_path =
     (case main_py app_path of
        None \<Rightarrow> None
      | Some Unreadable \<Rightarrow> None
      | Some (Text content) \<Rightarrow>
          (let app_type = determine_app_type content app_path;
               relative_path = ''apps/'' @ entry_name app_path
           in Some \<lparr>name = entry_name app_path,
                     path = relative_path,
                     type = app_type,
                     main_file = relative_path @ ''/main.py'',
                     description = extract_description content,
                     command = generate_command relative_path app_type content,
                     port = (if app_type = ''web'' then extract_port content else None)\<rparr>))"

text \<open>
  \<^verbatim>\<open>Path.stem\<close> (pathlib): the name up to its last dot, when that dot is neither the
  first nor the last character; the whole name otherwise. \<open>k\<close> is the position after
  the last dot, 0 when there is none.
\<close>

definition stem :: "string \<Rightarrow> string" where
  "stem n =
     (let k = length (dropWhile (\<lambda>c. c \<noteq> CHR ''.'') (rev n))
      in if 2 \<le> k \<and> k < length n then take (k - 1) n else n)"

text \<open>\<^verbatim>\<open>_analyze_script\<close>: \<open>None\<close> when reading the file raises.\<close>

definition analyze_script :: "script_entry \<Rightarrow> app_info option" where
  "analyze_script script_path =
     (case file_text script_path of
        Unreadable \<Rightarrow> None
      | Text content \<Rightarrow>
          Some \<lparr>name = stem (file_name script_path),
                path = ''scripts'',
                type = ''script'',
                main_file = ''scripts/'' @ file_name script_path,
                description = extract_description content,
                command = ''uv run python scripts/'' @ file_name script_path,
                port = None\<rparr>)"

text \<open>
  \<^verbatim>\<open>discover_apps\<close>. \<^verbatim>\<open>glob("*.py")\<close> keeps the entries whose name ends in \<^verbatim>\<open>.py\<close>.
  \<^verbatim>\<open>sorted\<close> is stable, as \<open>sort_key\<close> is; strings compare lexicographically by
  character, tuples by their components in order.
\<close>

definition scan_apps :: "project \<Rightarrow> app_info list" where
  "scan_apps root =
     (case apps_dir root of
        None \<Rightarrow> []
      | Some entries \<Rightarrow>
          List.map_filter analyze_app
            (filter (\<lambda>app_path. is_dir app_path \<and> entry_name app_path \<noteq> ''__pycache__'')
               entries))"

definition scan_scripts :: "project \<Rightarrow> app_info list" where
  "scan_scripts root =
     (case scripts_dir root of
        None \<Rightarrow> []
      | Some entries \<Rightarrow>
          List.map_filter analyze_script
            (filter (\<lambda>script_path. endswith (file_name script_path) ''.py''
                       \<and> file_name script_path \<noteq> ''__init__.py'')
               entries))"

definition discover_apps :: "project \<Rightarrow> app_info list" where
  "discover_apps root = sort_key (\<lambda>x. (type x, name x)) (scan_apps root @ scan_scripts root)"

section \<open>Supervision (apps/launcher/main.py, AppRunner)\<close>

text \<open>
  The state of an \<^verbatim>\<open>AppRunner\<close> and of the child processes it has started.
  \<open>running_processes\<close> is the dict of the source, from application name to the
  \<^verbatim>\<open>Popen\<close> object registered under it; a \<^verbatim>\<open>Popen\<close> object is known by its number.
  \<open>processes\<close> holds every \<^verbatim>\<open>Popen\<close> object created so far with its
  \<^verbatim>\<open>returncode\<close>: \<open>None\<close> while the child runs, the exit status afterwards.
\<close>

record runner =
  running_processes :: "(string \<times> nat) list"
  processes :: "(nat \<times> int option) list"

definition new_runner :: runner where
  "new_runner = \<lparr>running_processes = [], processes = []\<rparr>"

text \<open>
  \<^verbatim>\<open>run_app\<close>. Whether \<^verbatim>\<open>subprocess.Popen(cmd_parts, ...)\<close> starts a child is the
  operating system's answer, the parameter \<open>can_spawn\<close>; when it does not, the
  exception is re-raised as \<^verbatim>\<open>RuntimeError\<close> and nothing is registered. When it does,
  the new object is stored under the application's name and returned.
\<close>

definition run_app :: "(string list \<Rightarrow> bool) \<Rightarrow> app_info \<Rightarrow> runner \<Rightarrow> error + nat \<times> runner" where
  "run_app can_spawn app r =
     (let cmd_parts = split_ws (command app) in
      if can_spawn cmd_parts then
        (let process = length (processes r) in
         Inr (process,
              r\<lparr>processes := processes r @ [(process, None)],
                running_processes := AList.update (name app) process (running_processes r)\<rparr>))
      else Inl RuntimeError)"

text \<open>
  \<^verbatim>\<open>
    process.terminate()
    process.wait(timeout=5)
    except subprocess.TimeoutExpired:
        process.kill()
        process.wait()
  \<close>
  A child that has exited keeps its return code. A running child either ends within
  the five seconds after \<^verbatim>\<open>terminate\<close> (return code \<open>-15\<close>) or, when the wait times
  out (\<open>timeout_expired\<close>), is killed (return code \<open>-9\<close>).
\<close>

definition terminate_wait_kill :: "bool \<Rightarrow> int option \<Rightarrow> int option" where
  "terminate_wait_kill timeout_expired returncode =
     (case returncode of
        Some rc \<Rightarrow> Some rc
      | None \<Rightarrow> if timeout_expired then Some (- 9) else Some (- 15))"

definition stop_app :: "bool \<Rightarrow> string \<Rightarrow> runner \<Rightarrow> bool \<times> runner" where
  "stop_app timeout_expired app_name r =
     (case map_of (running_processes r) app_name of
        Some process \<Rightarrow>
          (True,
           r\<lparr>processes :=
                 map (\<lambda>(p, rc). if p = process then (p, terminate_wait_kill timeout_expired rc)
                                else (p, rc))
                   (processes r),
               running_processes := AList.delete app_name (running_processes r)\<rparr>)
      | None \<Rightarrow> (False, r))"

text \<open>\<^verbatim>\<open>poll() is None\<close> of a \<^verbatim>\<open>Popen\<close> object: the child has not exited.\<close>

definition alive :: "runner \<Rightarrow> nat \<Rightarrow> bool" where
  "alive r process \<longleftrightarrow> map_of (processes r) process = Some None"

definition is_running :: "string \<Rightarrow> runner \<Rightarrow> bool" where
  "is_running app_name r =
     (case map_of (running_processes r) app_name of
        Some process \<Rightarrow> alive r process
      | None \<Rightarrow> False)"

text \<open>
  A history of the supervisor: the calls made on one \<^verbatim>\<open>AppRunner\<close>, in order. A
  \<^verbatim>\<open>run_app\<close> that raises leaves the state as it was.
\<close>

datatype call = Run app_info | Stop string bool

fun do_call :: "(string list \<Rightarrow> bool) \<Rightarrow> runner \<Rightarrow> call \<Rightarrow> runner" where
  "do_call can_spawn r (Run app) =
     (case run_app can_spawn app r of Inr (process, r') \<Rightarrow> r' | Inl e \<Rightarrow> r)"
| "do_call can_spawn r (Stop app_name timeout_expired) = snd (stop_app timeout_expired app_name r)"

definition do_calls :: "(string list \<Rightarrow> bool) \<Rightarrow> call list \<Rightarrow> runner" where
  "do_calls can_spawn calls = foldl (do_call can_spawn) new_runner calls"

text \<open>An application to run: the name \<^verbatim>\<open>a\<close>, the command \<^verbatim>\<open>uv run python apps/a/main.py\<close>.\<close>

definition example_app :: app_info where
  "example_app =
     \<lparr>name = ''a'', path = ''apps/a'', type = ''script'', main_file = ''apps/a/main.py'',
      description = ''Python application'', command = ''uv run python apps/a/main.py'',
      port = None\<rparr>"

text \<open>
  Two project trees. In the first, \<^verbatim>\<open>apps/foo/main.py\<close> is a web application whose text
  holds \<^verbatim>\<open>port=0\<close>, and \<^verbatim>\<open>scripts/foo.py\<close> is a script. In the second,
  \<^verbatim>\<open>apps/api/main.py\<close> is a web application on port 8000.
\<close>

definition foo_project :: project where
  "foo_project =
     \<lparr>apps_dir = Some [\<lparr>entry_name = ''foo'', is_dir = True,
                         main_py = Some (Text ''import fastapi # port=0''),
                         has_templates = False, has_static = False\<rparr>],
      scripts_dir = Some [\<lparr>file_name = ''foo.py'', file_text = Text ''# a script''\<rparr>]\<rparr>"

definition api_project :: project where
  "api_project =
     \<lparr>apps_dir = Some [\<lparr>entry_name = ''api'', is_dir = True,
                         main_py = Some (Text ''import fastapi # port=8000''),
                         has_templates = False, has_static = False\<rparr>],
      scripts_dir = None\<rparr>"

text \<open>
  The candidates a scan turns into descriptors, and their names: of the entries of
  \<^verbatim>\<open>apps/\<close>, the directories other than \<^verbatim>\<open>__pycache__\<close> whose \<^verbatim>\<open>main.py\<close> exists and
  can be read, named by the directory; of the entries of \<^verbatim>\<open>scripts/\<close>, the \<^verbatim>\<open>*.py\<close>
  files other than \<^verbatim>\<open>__init__.py\<close> that can be read, named by their stem.
\<close>

definition scanned_app :: "app_entry \<Rightarrow> bool" where
  "scanned_app e \<longleftrightarrow>
     is_dir e \<and> entry_name e \<noteq> ''__pycache__'' \<and>
     (case main_py e of Some (Text content) \<Rightarrow> True | _ \<Rightarrow> False)"

definition scanned_script :: "script_entry \<Rightarrow> bool" where
  "scanned_script e \<longleftrightarrow>
     endswith (file_name e) ''.py'' \<and> file_name e \<noteq> ''__init__.py'' \<and>
     (case file_text e of Text content \<Rightarrow> True | Unreadable \<Rightarrow> False)"

definition candidate_names :: "project \<Rightarrow> string list" where
  "candidate_names root =
     map entry_name
       (filter scanned_app (case apps_dir root of None \<Rightarrow> [] | Some entries \<Rightarrow> entries)) @
     map (\<lambda>e. stem (file_name e))
       (filter scanned_script
          (case scripts_dir root of None \<Rightarrow> [] | Some entries \<Rightarrow> entries))"

text \<open>
  A project tree with two applications and a script, and with entries a scan passes
  over: \<^verbatim>\<open>apps/__pycache__\<close>, \<^verbatim>\<open>apps/docs\<close> (a directory without \<^verbatim>\<open>main.py\<close>),
  \<^verbatim>\<open>apps/README.md\<close> (a file), \<^verbatim>\<open>scripts/__init__.py\<close>, \<^verbatim>\<open>scripts/__pycache__\<close> and
  \<^verbatim>\<open>scripts/web.py\<close>, which cannot be read.
\<close>

definition tools_project :: project where
  "tools_project =
     \<lparr>apps_dir = Some
        [\<lparr>entry_name = ''web'', is_dir = True, main_py = Some (Text ''import flask''),
          has_templates = True, has_static = False\<rparr>,
         \<lparr>entry_name = ''__pycache__'', is_dir = True, main_py = None,
          has_templates = False, has_static = False\<rparr>,
         \<lparr>entry_name = ''docs'', is_dir = True, main_py = None,
          has_templates = False, has_static = False\<rparr>,
         \<lparr>entry_name = ''README.md'', is_dir = False, main_py = None,
          has_templates = False, has_static = False\<rparr>,
         \<lparr>entry_name = ''tool'', is_dir = True, main_py = Some (Text ''import typer''),
          has_templates = False, has_static = False\<rparr>],
      scripts_dir = Some
        [\<lparr>file_name = ''docs.py'', file_text = Text ''# build the docs''\<rparr>,
         \<lparr>file_name = ''__init__.py'', file_text = Text []\<rparr>,
         \<lparr>file_name = ''__pycache__'', file_text = Unreadable\<rparr>,
         \<lparr>file_name = ''web.py'', file_text = Unreadable\<rparr>]\<rparr>"

text \<open>The descriptor of \<^verbatim>\<open>apps/api\<close>.\<close>

definition api_info :: app_info where
  "api_info =
     \<lparr>name = ''api'', path = ''apps/api'', type = ''web'', main_file = ''apps/api/main.py'',
      description = ''Python application'',
      command = ''uv run uvicorn apps.api.main:app --reload'', port = Some 8000\<rparr>"

section \<open>Properties of the configuration store\<close>

lemma split_char_nonempty: "split_char sep s \<noteq> []"
  by (induction s) (auto simp: Let_def)

lemma split_dot_nonempty: "split_dot key \<noteq> []"
  by (simp add: split_dot_def split_char_nonempty)

lemma set_loop_Some: "ks \<noteq> [] \<Longrightarrow> \<exists>c'. set_loop c ks v = Some c'"
  by (induction c ks v rule: set_loop.induct) auto


lemma get_set_loop: "set_loop c ks v = Some c' \<Longrightarrow> get_loop (JDict c') ks d = v"
  by (induction c ks v arbitrary: c' rule: set_loop.induct)
     (auto simp: update_conv' split: option.splits)



lemma resolve_scalar: "\<not> is_dict s \<Longrightarrow> ks \<noteq> [] \<Longrightarrow> resolve s ks = None"
  by (cases ks; cases s) auto

lemma set_loop_through_scalar:
  "set_loop c (pre @ k # post) v = Some c' \<Longrightarrow> post \<noteq> [] \<Longrightarrow>
   resolve (JDict c) (pre @ [k]) = Some s \<Longrightarrow> \<not> is_dict s \<Longrightarrow>
   \<exists>sub. set_loop [] post v = Some sub \<and> resolve (JDict c') (pre @ [k]) = Some (JDict sub)"
proof (induction pre arbitrary: c c')
  case Nil
  from Nil(2) obtain p ps where post: "post = p # ps" by (cases post) auto
  from Nil(3,4) have "descend c k = []"
    by (cases s) (auto simp: descend_def split: option.splits)
  with Nil(1) post obtain sub where "set_loop [] post v = Some sub"
    and "c' = AList.update k (JDict sub) c"
    by (auto split: option.splits)
  then show ?case by (simp add: update_conv')
next
  case (Cons a pre)
  obtain q qs where rest: "pre @ k # post = q # qs" by (cases pre) auto
  from Cons(4) obtain x where x: "map_of c a = Some x" and rx: "resolve x (pre @ [k]) = Some s"
    by (auto split: option.splits)
  from rx obtain d where d: "x = JDict d"
    using resolve_scalar[of x "pre @ [k]"] by (cases x) auto
  have desc: "descend c a = d" by (simp add: descend_def x d)
  from Cons(2) rest desc obtain sub' where s': "set_loop d (pre @ k # post) v = Some sub'"
    and c': "c' = AList.update a (JDict sub') c"
    by (auto split: option.splits)
  from Cons.IH[OF s' Cons(3) _ Cons(5)] rx d
  obtain sub where "set_loop [] post v = Some sub"
    and "resolve (JDict sub') (pre @ [k]) = Some (JDict sub)" by auto
  then show ?case by (auto simp: c' update_conv')
qed

text \<open>
  C8. Let a segment of a dotted key that is not its last (\<open>k\<close>, after the segments
  \<open>pre\<close> and before the segments \<open>post\<close>) hold a value that is not a dict. Then
  \<^verbatim>\<open>set(key, value)\<close> returns; in the document it leaves, that segment holds a dict, the
  one that \<^verbatim>\<open>set\<close> builds from the empty dict along the remaining segments; and
  \<^verbatim>\<open>get(key)\<close> gives the value.
\<close>

theorem set_through_scalar:
  assumes "split_dot key = pre @ k # post" and "post \<noteq> []"
    and "resolve (JDict config) (pre @ [k]) = Some s" and "\<not> is_dict s"
  shows "\<exists>config' sub. set_key config key val = Some config' \<and>
           set_loop [] post val = Some sub \<and>
           resolve (JDict config') (pre @ [k]) = Some (JDict sub) \<and>
           get config' key dflt = val"
proof -
  obtain c' where c': "set_loop config (split_dot key) val = Some c'"
    using set_loop_Some[OF split_dot_nonempty] by blast
  with assms(1) have "set_loop config (pre @ k # post) val = Some c'" by simp
  from set_loop_through_scalar[OF this assms(2,3,4)]
  obtain sub where "set_loop [] post val = Some sub"
    and "resolve (JDict c') (pre @ [k]) = Some (JDict sub)" by blast
  moreover have "get c' key dflt = val"
    using c' by (simp add: get_def get_set_loop)
  ultimately show ?thesis using c' by (simp add: set_key_def)
qed

theorem set_through_scalar_witness:
  "split_dot ''a.b'' = [] @ ''a'' # [''b''] \<and> [''b''] \<noteq> [] \<and>
   resolve (JDict [(''a'', JNum 5)]) ([] @ [''a'']) = Some (JNum 5) \<and> \<not> is_dict (JNum 5) \<and>
   (\<exists>config' sub. set_key [(''a'', JNum 5)] ''a.b'' (JStr ''x'') = Some config' \<and>
      set_loop [] [''b''] (JStr ''x'') = Some sub \<and>
      resolve (JDict config') ([] @ [''a'']) = Some (JDict sub) \<and>
      get config' ''a.b'' JNull = JStr ''x'')"
proof -
  have h1: "split_dot ''a.b'' = [] @ ''a'' # [''b'']" by (simp add: split_dot_def)
  have h2: "[''b''] \<noteq> []" by simp
  have h3: "resolve (JDict [(''a'', JNum 5)]) ([] @ [''a'']) = Some (JNum 5)" by simp
  have h4: "\<not> is_dict (JNum 5)" by simp
  show ?thesis
    using set_through_scalar[OF h1 h2 h3 h4, of "JStr ''x''" JNull] h1 h2 h3 h4 by blast
qed

text \<open>
  C4 as stated fails twice. When the file is missing \<^verbatim>\<open>load\<close> does nothing, and a
  document that is not empty stays. When the file exists and cannot be read or decoded
  (a corrupt file whose bytes are not UTF-8), the exception leaves \<^verbatim>\<open>load\<close>: only
  \<^verbatim>\<open>json.JSONDecodeError\<close> and \<^verbatim>\<open>FileNotFoundError\<close> are caught.
\<close>

theorem load_missing_or_unreadable:
  "load NoFile [(''a'', JNum 1)] = Inr [(''a'', JNum 1)] \<and> [(''a'', JNum 1)] \<noteq> ([] :: dict) \<and>
   load NotReadable [] = Inl ReadError"
  by (simp add: load_def)

text \<open>
  C4, amended. Whatever the document in memory: when the file exists and holds a
  document, \<^verbatim>\<open>load\<close> replaces the document in memory by it; when the file exists and
  its text, read and decoded, is not JSON (\<^verbatim>\<open>json.JSONDecodeError\<close>), \<^verbatim>\<open>load\<close>
  replaces it by the empty dict and no exception leaves \<^verbatim>\<open>load\<close>; when the file is
  missing, \<^verbatim>\<open>load\<close> raises nothing and leaves the document in memory as it is, which
  at construction is the empty dict.
\<close>

theorem load_outcomes:
  "load (Holds d) config = Inr d \<and>
   load NotJson config = Inr [] \<and>
   load NoFile config = Inr config \<and>
   init NoFile = Inr []"
  by (simp add: load_def init_def)

subsection \<open>The store\<close>

lemma ref_set_loop_Some: "ks \<noteq> [] \<Longrightarrow> \<exists>h'. ref_set_loop h a ks v = Some h'"
  by (induction h a ks v rule: ref_set_loop.induct)
     (auto split: option.splits pyval.splits)

lemma map_of_vals:
  "map_of (map (\<lambda>(k, t). (k, val_of t)) kvs) k = Some v \<Longrightarrow>
   \<exists>t. (k, t) \<in> set kvs \<and> v = val_of t"
  by (induction kvs) (auto split: if_splits)

lemma child_of:
  assumes "realizes h (Node a kvs)" and "map_of (h ! a) k = Some v"
  shows "\<exists>t. (k, t) \<in> set kvs \<and> v = val_of t \<and> realizes h t"
proof -
  from assms(1) have "h ! a = map (\<lambda>(k, t). (k, val_of t)) kvs" by simp
  with assms(2) obtain t where "(k, t) \<in> set kvs" "v = val_of t"
    using map_of_vals by metis
  moreover from this assms(1) have "realizes h t" by auto
  ultimately show ?thesis by blast
qed

lemma val_of_DictRef: "val_of t = DictRef b \<Longrightarrow> \<exists>kvs. t = Node b kvs"
  by (cases t) auto

lemma addrs_child:
  "(k, t) \<in> set kvs \<Longrightarrow> set (addrs t) \<subseteq> set (concat (map (\<lambda>(k, t). addrs t) kvs))"
  by (induction kvs) auto

lemma addrs_child_Node: "(k, t) \<in> set kvs \<Longrightarrow> set (addrs t) \<subseteq> set (addrs (Node a kvs))"
  using addrs_child[of k t kvs] by auto

lemma distinct_child:
  "distinct (concat (map (\<lambda>(k, t). addrs t) kvs)) \<Longrightarrow> (k, t) \<in> set kvs \<Longrightarrow>
   distinct (addrs t)"
  by (induction kvs) auto

lemma siblings_disjoint:
  "distinct (concat (map (\<lambda>(k, t). addrs t) kvs)) \<Longrightarrow> (k, t) \<in> set kvs \<Longrightarrow>
   (k', t') \<in> set kvs \<Longrightarrow> k \<noteq> k' \<Longrightarrow> set (addrs t) \<inter> set (addrs t') = {}"
proof (induction kvs)
  case Nil
  then show ?case by simp
next
  case (Cons p kvs)
  from Cons.prems(1) have d: "distinct (concat (map (\<lambda>(k, t). addrs t) kvs))"
    and dj: "set (case p of (k, t) \<Rightarrow> addrs t) \<inter> set (concat (map (\<lambda>(k, t). addrs t) kvs)) = {}"
    by auto
  consider "p = (k, t)" "(k', t') \<in> set kvs" | "p = (k', t')" "(k, t) \<in> set kvs"
    | "(k, t) \<in> set kvs" "(k', t') \<in> set kvs"
    using Cons.prems(2,3,4) by auto
  then show ?case
  proof cases
    case 1
    with dj addrs_child[OF 1(2)] show ?thesis by auto
  next
    case 2
    with dj addrs_child[OF 2(2)] show ?thesis by auto
  next
    case 3
    with Cons.IH[OF d] Cons.prems(4) show ?thesis by blast
  qed
qed

lemma addrs_in_heap: "realizes h t \<Longrightarrow> b \<in> set (addrs t) \<Longrightarrow> b < length h"
proof (induction t arbitrary: b)
  case (Leaf s)
  then show ?case by simp
next
  case (Node a kvs)
  from Node.prems(2) consider "b = a" | k t where "(k, t) \<in> set kvs" "b \<in> set (addrs t)"
    by auto
  then show ?case
  proof cases
    case 1
    with Node.prems(1) show ?thesis by simp
  next
    case 2
    from 2(1) Node.prems(1) have "realizes h t" by auto
    moreover from 2(1) have "(k, t) \<in> set kvs" "t \<in> Basic_BNFs.snds (k, t)" by auto
    ultimately show ?thesis using Node.IH 2(2) by blast
  qed
qed

lemma ref_get_loop_agree:
  "realizes h t \<Longrightarrow> (\<forall>b \<in> set (addrs t). h' ! b = h ! b) \<Longrightarrow>
   ref_get_loop h' (val_of t) ks d = ref_get_loop h (val_of t) ks d"
proof (induction ks arbitrary: t)
  case Nil
  then show ?case by simp
next
  case (Cons k ks)
  show ?case
  proof (cases t)
    case (Leaf s)
    then show ?thesis by simp
  next
    case (Node a kvs)
    with Cons.prems(2) have eq: "h' ! a = h ! a" by simp
    show ?thesis
    proof (cases "map_of (h ! a) k")
      case None
      with eq Node show ?thesis by simp
    next
      case (Some v)
      with Cons.prems(1) Node obtain t' where t': "(k, t') \<in> set kvs" "v = val_of t'"
        "realizes h t'"
        using child_of by blast
      from addrs_child[OF t'(1)] Node Cons.prems(2)
      have "\<forall>b \<in> set (addrs t'). h' ! b = h ! b" by auto
      from Cons.IH[OF t'(3) this] Some eq Node t'(2) show ?thesis by simp
    qed
  qed
qed

lemma ref_set_loop_frame:
  "realizes h (Node a kvs) \<Longrightarrow> ref_set_loop h a ks v = Some h' \<Longrightarrow>
   length h \<le> length h' \<and>
   (\<forall>b < length h. b \<notin> set (addrs (Node a kvs)) \<longrightarrow> h' ! b = h ! b)"
proof (induction ks arbitrary: h a kvs h')
  case Nil
  then show ?case by simp
next
  case (Cons k ks)
  show ?case
  proof (cases ks)
    case Nil
    with Cons.prems(2) show ?thesis by auto
  next
    case (Cons k' ks')
    note ks = Cons
    show ?thesis
    proof (cases "\<exists>b. map_of (h ! a) k = Some (DictRef b)")
      case True
      then obtain b where b: "map_of (h ! a) k = Some (DictRef b)" by blast
      with Cons.prems(2) ks have s: "ref_set_loop h b ks v = Some h'" by simp
      from child_of[OF Cons.prems(1) b] obtain t where t: "(k, t) \<in> set kvs"
        "DictRef b = val_of t" "realizes h t" by blast
      then obtain kvs' where t': "t = Node b kvs'" using val_of_DictRef[of t b] by auto
      from Cons.IH[OF _ s, of kvs'] t(3) t'
      have "length h \<le> length h'"
        "\<forall>c < length h. c \<notin> set (addrs (Node b kvs')) \<longrightarrow> h' ! c = h ! c" by auto
      moreover from addrs_child_Node[OF t(1)] t'
      have "set (addrs (Node b kvs')) \<subseteq> set (addrs (Node a kvs))" by simp
      ultimately show ?thesis by blast
    next
      case False
      define h1 where "h1 = h[a := AList.update k (DictRef (length h)) (h ! a)] @ [[]]"
      from False Cons.prems(2) ks have s: "ref_set_loop h1 (length h) ks v = Some h'"
        by (auto simp: h1_def split: option.splits pyval.splits)
      have r: "realizes h1 (Node (length h) [])"
        by (simp add: h1_def nth_append)
      from Cons.IH[OF r s]
      have len: "length h1 \<le> length h'"
        and same: "\<forall>c < length h1. c \<noteq> length h \<longrightarrow> h' ! c = h1 ! c" by auto
      have l1: "length h1 = Suc (length h)" by (simp add: h1_def)
      have "\<forall>c < length h. c \<notin> set (addrs (Node a kvs)) \<longrightarrow> h' ! c = h ! c"
      proof (intro allI impI)
        fix c assume c: "c < length h" "c \<notin> set (addrs (Node a kvs))"
        then have "c \<noteq> a" by auto
        with c have "h1 ! c = h ! c" by (simp add: h1_def nth_append)
        moreover from same c l1 have "h' ! c = h1 ! c" by auto
        ultimately show "h' ! c = h ! c" by simp
      qed
      with len l1 show ?thesis by auto
    qed
  qed
qed

lemma root_not_in_child:
  "distinct (addrs (Node a kvs)) \<Longrightarrow> (k, t) \<in> set kvs \<Longrightarrow> a \<notin> set (addrs t)"
  using addrs_child[of k t kvs] by auto

lemma distinct_child_Node:
  "distinct (addrs (Node a kvs)) \<Longrightarrow> (k, t) \<in> set kvs \<Longrightarrow> distinct (addrs t)"
  using distinct_child[of kvs k t] by simp

lemma siblings_disjoint_Node:
  "distinct (addrs (Node a kvs)) \<Longrightarrow> (k, t) \<in> set kvs \<Longrightarrow> (k', t') \<in> set kvs \<Longrightarrow>
   k \<noteq> k' \<Longrightarrow> set (addrs t) \<inter> set (addrs t') = {}"
  using siblings_disjoint[of kvs k t k' t'] by simp

lemma ref_get_other_key:
  assumes "realizes h (Node a kvs)"
    and "map_of (h' ! a) k2 = map_of (h ! a) k2"
    and "\<And>t c. (k2, t) \<in> set kvs \<Longrightarrow> c \<in> set (addrs t) \<Longrightarrow> h' ! c = h ! c"
  shows "ref_get_loop h' (DictRef a) (k2 # r2) d = ref_get_loop h (DictRef a) (k2 # r2) d"
proof (cases "map_of (h ! a) k2")
  case None
  with assms(2) show ?thesis by simp
next
  case (Some x)
  from child_of[OF assms(1) Some] obtain t where t: "(k2, t) \<in> set kvs" "x = val_of t"
    "realizes h t" by blast
  from assms(3)[OF t(1)] have "\<forall>c \<in> set (addrs t). h' ! c = h ! c" by blast
  from ref_get_loop_agree[OF t(3) this] Some assms(2) t(2) show ?thesis by simp
qed

lemma ref_get_loop_Scalar: "r \<noteq> [] \<Longrightarrow> ref_get_loop h (Scalar s) r d = d"
  by (cases r) auto

lemma ref_frame_loop:
  "realizes h (Node a kvs) \<Longrightarrow> distinct (addrs (Node a kvs)) \<Longrightarrow>
   ref_set_loop h a ks1 v = Some h' \<Longrightarrow> \<not> prefix ks1 ks2 \<Longrightarrow> \<not> prefix ks2 ks1 \<Longrightarrow>
   ref_get_loop h' (DictRef a) ks2 d = ref_get_loop h (DictRef a) ks2 d"
proof (induction ks1 arbitrary: h a kvs h' ks2)
  case Nil
  then show ?case by simp
next
  case (Cons k ks)
  note real = Cons.prems(1) and dist = Cons.prems(2) and set = Cons.prems(3)
  from Cons.prems(5) obtain k2 r2 where ks2: "ks2 = k2 # r2" by (cases ks2) auto
  from real have a: "a < length h" by simp
  show ?case
  proof (cases ks)
    case Nil
    with set have h': "h' = h[a := AList.update k v (h ! a)]" by simp
    from Nil Cons.prems(4) ks2 have ne: "k2 \<noteq> k" by auto
    have "ref_get_loop h' (DictRef a) (k2 # r2) d = ref_get_loop h (DictRef a) (k2 # r2) d"
    proof (rule ref_get_other_key[OF real])
      show "map_of (h' ! a) k2 = map_of (h ! a) k2"
        using a ne by (simp add: h' update_conv')
    next
      fix t c assume "(k2, t) \<in> set kvs" "c \<in> set (addrs t)"
      with root_not_in_child[OF dist] have "c \<noteq> a" by blast
      then show "h' ! c = h ! c" by (simp add: h')
    qed
    then show ?thesis by (simp add: ks2)
  next
    case (Cons k' ks')
    note ks = Cons
    show ?thesis
    proof (cases "\<exists>b. map_of (h ! a) k = Some (DictRef b)")
      case True
      then obtain b where b: "map_of (h ! a) k = Some (DictRef b)" by blast
      with set ks have s: "ref_set_loop h b ks v = Some h'" by simp
      from child_of[OF real b] obtain t where t: "(k, t) \<in> set kvs"
        "DictRef b = val_of t" "realizes h t" by blast
      then obtain kvs' where t': "t = Node b kvs'" using val_of_DictRef[of t b] by auto
      have rb: "realizes h (Node b kvs')" using t(3) t' by simp
      have db: "distinct (addrs (Node b kvs'))"
        using distinct_child_Node[OF dist t(1)] t' by simp
      from ref_set_loop_frame[OF rb s]
      have same: "\<And>c. c < length h \<Longrightarrow> c \<notin> set (addrs (Node b kvs')) \<Longrightarrow> h' ! c = h ! c"
        by blast
      from root_not_in_child[OF dist t(1)] t' have "a \<notin> set (addrs (Node b kvs'))" by simp
      with same a have ha: "h' ! a = h ! a" by blast
      show ?thesis
      proof (cases "k2 = k")
        case True
        with Cons.prems(4,5) ks2 have par: "\<not> prefix ks r2" "\<not> prefix r2 ks" by auto
        from Cons.IH[OF rb db s par]
        have "ref_get_loop h' (DictRef b) r2 d = ref_get_loop h (DictRef b) r2 d" .
        then show ?thesis by (simp add: ks2 True ha b)
      next
        case False
        have "ref_get_loop h' (DictRef a) (k2 # r2) d = ref_get_loop h (DictRef a) (k2 # r2) d"
        proof (rule ref_get_other_key[OF real])
          show "map_of (h' ! a) k2 = map_of (h ! a) k2" by (simp add: ha)
        next
          fix t2 c assume t2: "(k2, t2) \<in> set kvs" "c \<in> set (addrs t2)"
          from siblings_disjoint_Node[OF dist t2(1) t(1) False] t2(2) t'
          have "c \<notin> set (addrs (Node b kvs'))" by blast
          moreover from real t2(1) have "realizes h t2" by auto
          from addrs_in_heap[OF this t2(2)] have "c < length h" .
          ultimately show "h' ! c = h ! c" using same by blast
        qed
        then show ?thesis by (simp add: ks2)
      qed
    next
      case False
      define n where "n = length h"
      define h1 where "h1 = h[a := AList.update k (DictRef n) (h ! a)] @ [[]]"
      from False set ks have s: "ref_set_loop h1 n ks v = Some h'"
        by (auto simp: h1_def n_def split: option.splits pyval.splits)
      have r1: "realizes h1 (Node n [])"
        by (simp add: h1_def n_def nth_append)
      have d1: "distinct (addrs (Node n []))" by simp
      have l1: "length h1 = Suc n" by (simp add: h1_def n_def)
      from ref_set_loop_frame[OF r1 s] l1
      have same: "\<And>c. c < Suc n \<Longrightarrow> c \<noteq> n \<Longrightarrow> h' ! c = h1 ! c" by auto
      have h1c: "\<And>c. c < n \<Longrightarrow> c \<noteq> a \<Longrightarrow> h1 ! c = h ! c"
        by (simp add: h1_def n_def nth_append)
      from a have an: "a < n" by (simp add: n_def)
      with same have ha: "h' ! a = AList.update k (DictRef n) (h ! a)"
        by (simp add: h1_def n_def nth_append)
      show ?thesis
      proof (cases "k2 = k")
        case True
        with Cons.prems(4,5) ks2 have par: "\<not> prefix ks r2" "\<not> prefix r2 ks" by auto
        then have r2: "r2 \<noteq> []" by auto
        from Cons.IH[OF r1 d1 s par]
        have "ref_get_loop h' (DictRef n) r2 d = ref_get_loop h1 (DictRef n) r2 d" .
        also have "\<dots> = d" using r2 by (cases r2) (auto simp: h1_def n_def nth_append)
        finally have lhs: "ref_get_loop h' (DictRef a) (k # r2) d = d"
          by (simp add: ha update_conv')
        have rhs: "ref_get_loop h (DictRef a) (k # r2) d = d"
        proof (cases "map_of (h ! a) k")
          case None
          then show ?thesis by simp
        next
          case (Some x)
          with False obtain sc where "x = Scalar sc" by (cases x) auto
          with Some r2 show ?thesis by (simp add: ref_get_loop_Scalar)
        qed
        from lhs rhs show ?thesis by (simp add: ks2 True)
      next
        case False
        have "ref_get_loop h' (DictRef a) (k2 # r2) d = ref_get_loop h (DictRef a) (k2 # r2) d"
        proof (rule ref_get_other_key[OF real])
          show "map_of (h' ! a) k2 = map_of (h ! a) k2"
            using False by (simp add: ha update_conv')
        next
          fix t2 c assume t2: "(k2, t2) \<in> set kvs" "c \<in> set (addrs t2)"
          from root_not_in_child[OF dist t2(1)] t2(2) have ca: "c \<noteq> a" by blast
          from real t2(1) have "realizes h t2" by auto
          from addrs_in_heap[OF this t2(2)] have cn: "c < n" by (simp add: n_def)
          from same[of c] cn have "h' ! c = h1 ! c" by simp
          with h1c[OF cn ca] show "h' ! c = h ! c" by simp
        qed
        then show ?thesis by (simp add: ks2)
      qed
    qed
  qed
qed

text \<open>
  C10 as stated fails: \<^verbatim>\<open>set\<close> stores the caller's dict itself. With the one dict
  object \<^verbatim>\<open>d = {}\<close> (address 1) stored under \<^verbatim>\<open>a\<close> and under \<^verbatim>\<open>b\<close>,
  \<^verbatim>\<open>set('a.x', 1)\<close> changes \<^verbatim>\<open>get('b.x', None)\<close> from \<^verbatim>\<open>None\<close> to \<^verbatim>\<open>1\<close>, although
  neither key begins the other.
\<close>

theorem shared_dict_breaks_frame:
  "ref_set [[], []] 0 ''a'' (DictRef 1) = Some [[(''a'', DictRef 1)], []] \<and>
   ref_set [[(''a'', DictRef 1)], []] 0 ''b'' (DictRef 1) =
     Some [[(''a'', DictRef 1), (''b'', DictRef 1)], []] \<and>
   \<not> prefix (split_dot ''a.x'') (split_dot ''b.x'') \<and>
   \<not> prefix (split_dot ''b.x'') (split_dot ''a.x'') \<and>
   ref_get [[(''a'', DictRef 1), (''b'', DictRef 1)], []] 0 ''b.x'' (Scalar SNull) = Scalar SNull \<and>
   ref_set [[(''a'', DictRef 1), (''b'', DictRef 1)], []] 0 ''a.x'' (Scalar (SNum 1)) =
     Some [[(''a'', DictRef 1), (''b'', DictRef 1)], [(''x'', Scalar (SNum 1))]] \<and>
   ref_get [[(''a'', DictRef 1), (''b'', DictRef 1)], [(''x'', Scalar (SNum 1))]] 0 ''b.x''
     (Scalar SNull) = Scalar (SNum 1)"
  by (simp add: ref_set_def ref_get_def split_dot_def)

text \<open>
  C10, amended. In a store where no dict object is stored at two positions (the dicts
  reachable from the root form a tree, as in a document just loaded), when neither of
  two dotted keys has a sequence of segments that begins the other's,
  \<^verbatim>\<open>set(k1, value)\<close> returns and \<^verbatim>\<open>get(k2, default)\<close> gives the same result after it as
  before: the same scalar, or the same dict object.
\<close>

theorem ref_set_frame:
  assumes "unshared h root t"
    and "\<not> prefix (split_dot k1) (split_dot k2)"
    and "\<not> prefix (split_dot k2) (split_dot k1)"
  shows "\<exists>h'. ref_set h root k1 val = Some h' \<and>
           ref_get h' root k2 dflt = ref_get h root k2 dflt"
proof -
  from assms(1) obtain kvs where t: "t = Node root kvs"
    using val_of_DictRef[of t root] by (auto simp: unshared_def)
  with assms(1) have r: "realizes h (Node root kvs)" and d: "distinct (addrs (Node root kvs))"
    by (simp_all add: unshared_def)
  obtain h' where h': "ref_set_loop h root (split_dot k1) val = Some h'"
    using ref_set_loop_Some[OF split_dot_nonempty] by blast
  from ref_frame_loop[OF r d h' assms(2,3)]
  show ?thesis using h' by (simp add: ref_set_def ref_get_def)
qed

theorem ref_set_frame_witness:
  "unshared [[(''a'', DictRef 1), (''n'', Scalar (SNum 5))], [(''c'', Scalar (SNum 1))]] 0
     (Node 0 [(''a'', Node 1 [(''c'', Leaf (SNum 1))]), (''n'', Leaf (SNum 5))]) \<and>
   \<not> prefix (split_dot ''a.b'') (split_dot ''a.c'') \<and>
   \<not> prefix (split_dot ''a.c'') (split_dot ''a.b'') \<and>
   (\<exists>h'. ref_set [[(''a'', DictRef 1), (''n'', Scalar (SNum 5))], [(''c'', Scalar (SNum 1))]] 0
            ''a.b'' (Scalar (SNum 2)) = Some h' \<and>
      ref_get h' 0 ''a.c'' (Scalar SNull) =
      ref_get [[(''a'', DictRef 1), (''n'', Scalar (SNum 5))], [(''c'', Scalar (SNum 1))]] 0
        ''a.c'' (Scalar SNull))"
proof -
  have h0: "unshared [[(''a'', DictRef 1), (''n'', Scalar (SNum 5))], [(''c'', Scalar (SNum 1))]] 0
     (Node 0 [(''a'', Node 1 [(''c'', Leaf (SNum 1))]), (''n'', Leaf (SNum 5))])"
    by (simp add: unshared_def)
  have h1: "\<not> prefix (split_dot ''a.b'') (split_dot ''a.c'')" by (simp add: split_dot_def)
  have h2: "\<not> prefix (split_dot ''a.c'') (split_dot ''a.b'')" by (simp add: split_dot_def)
  show ?thesis
    using ref_set_frame[OF h0 h1 h2, of "Scalar (SNum 2)" "Scalar SNull"] h0 h1 h2 by blast
qed

section \<open>Properties of the supervisor\<close>

text \<open>
  C7. When no handle is registered under a name, \<^verbatim>\<open>stop_app\<close> returns \<^verbatim>\<open>False\<close> and
  leaves the supervisor, its handle map included, as it was; this path of the source
  raises nothing.
\<close>

theorem stop_unregistered:
  "map_of (running_processes r) app_name = None \<Longrightarrow>
   stop_app timeout_expired app_name r = (False, r)"
  by (simp add: stop_app_def)

theorem stop_unregistered_witness:
  "map_of (running_processes new_runner) ''web'' = None \<and>
   stop_app True ''web'' new_runner = (False, new_runner)"
proof -
  have h: "map_of (running_processes new_runner) ''web'' = None"
    by (simp add: new_runner_def)
  show ?thesis using stop_unregistered[OF h, of True] h by simp
qed

lemma distinct_do_call:
  "distinct (map fst (running_processes r)) \<Longrightarrow>
   distinct (map fst (running_processes (do_call can_spawn r c)))"
  by (cases c)
     (auto simp: run_app_def stop_app_def Let_def distinct_update distinct_delete
           split: option.splits)

lemma distinct_foldl_do_call:
  "distinct (map fst (running_processes r)) \<Longrightarrow>
   distinct (map fst (running_processes (foldl (do_call can_spawn) r calls)))"
  by (induction calls arbitrary: r) (auto simp: distinct_do_call)

lemma run_app_keeps_alive:
  "run_app can_spawn app r = Inr (p, r') \<Longrightarrow> alive r q \<Longrightarrow> alive r' q"
  by (auto simp: run_app_def alive_def Let_def split: if_splits)

lemma run_app_registers:
  "run_app can_spawn app r = Inr (p, r') \<Longrightarrow>
   map_of (running_processes r') (name app) = Some p"
  by (auto simp: run_app_def Let_def update_conv' split: if_splits)

text \<open>
  C3 as stated fails: a second \<^verbatim>\<open>run_app\<close> for the name \<^verbatim>\<open>a\<close> registers the new process 1
  while process 0, started first under that name, is still alive and is no longer
  registered.
\<close>

theorem second_run_leaves_first_alive:
  "run_app (\<lambda>cmd. True) example_app new_runner =
     Inr (0, \<lparr>running_processes = [(''a'', 0)], processes = [(0, None)]\<rparr>) \<and>
   run_app (\<lambda>cmd. True) example_app
       \<lparr>running_processes = [(''a'', 0)], processes = [(0, None)]\<rparr> =
     Inr (1, \<lparr>running_processes = [(''a'', 1)], processes = [(0, None), (1, None)]\<rparr>) \<and>
   alive \<lparr>running_processes = [(''a'', 1)], processes = [(0, None), (1, None)]\<rparr> 0 \<and>
   alive \<lparr>running_processes = [(''a'', 1)], processes = [(0, None), (1, None)]\<rparr> 1 \<and>
   name example_app = ''a''"
  by (simp add: run_app_def example_app_def new_runner_def alive_def)

text \<open>
  C3, amended. After every sequence of \<^verbatim>\<open>run_app\<close> and \<^verbatim>\<open>stop_app\<close> calls the handle
  map holds at most one handle per name. A \<^verbatim>\<open>run_app\<close> that succeeds registers the new
  handle under the name, in place of the one registered before if there was one; it
  stops no process: every process alive before the call is alive after it.
\<close>

theorem one_handle_per_name:
  "distinct (map fst (running_processes (do_calls can_spawn calls))) \<and>
   (run_app can_spawn app (do_calls can_spawn calls) = Inr (p, r') \<longrightarrow>
      map_of (running_processes r') (name app) = Some p \<and>
      (\<forall>q. alive (do_calls can_spawn calls) q \<longrightarrow> alive r' q))"
proof -
  have "distinct (map fst (running_processes new_runner))"
    by (simp add: new_runner_def)
  then have "distinct (map fst (running_processes (do_calls can_spawn calls)))"
    unfolding do_calls_def by (rule distinct_foldl_do_call)
  then show ?thesis
    using run_app_keeps_alive run_app_registers by blast
qed

theorem one_handle_per_name_witness:
  "run_app (\<lambda>cmd. True) example_app (do_calls (\<lambda>cmd. True) [Run example_app]) =
     Inr (1, \<lparr>running_processes = [(''a'', 1)], processes = [(0, None), (1, None)]\<rparr>) \<and>
   alive (do_calls (\<lambda>cmd. True) [Run example_app]) 0 \<and>
   distinct (map fst (running_processes (do_calls (\<lambda>cmd. True) [Run example_app]))) \<and>
   map_of [(''a'', 1 :: nat)] (name example_app) = Some 1 \<and>
   alive \<lparr>running_processes = [(''a'', 1)], processes = [(0, None), (1, None)]\<rparr> 0"
proof -
  have h1: "run_app (\<lambda>cmd. True) example_app (do_calls (\<lambda>cmd. True) [Run example_app]) =
     Inr (1, \<lparr>running_processes = [(''a'', 1)], processes = [(0, None), (1, None)]\<rparr>)"
    by (simp add: do_calls_def run_app_def example_app_def new_runner_def)
  have h2: "alive (do_calls (\<lambda>cmd. True) [Run example_app]) 0"
    by (simp add: do_calls_def run_app_def example_app_def new_runner_def alive_def)
  show ?thesis
    using one_handle_per_name[of "\<lambda>cmd. True" "[Run example_app]" example_app 1
        "\<lparr>running_processes = [(''a'', 1)], processes = [(0, None), (1, None)]\<rparr>"] h1 h2
    by simp
qed

section \<open>Properties of discovery\<close>

lemma contains_infix: "contains (pre @ m @ post) m"
proof (induction pre)
  case Nil
  have sw: "startswith (m @ post) m" by (simp add: startswith_def)
  show ?case
  proof (cases "m @ post")
    case Nil
    then show ?thesis by simp
  next
    case (Cons a l)
    with sw have "startswith (a # l) m" by simp
    then have "contains (a # l) m" by simp
    with Cons show ?thesis by simp
  qed
next
  case (Cons c pre)
  then show ?case by simp
qed

text \<open>
  C2. When the text of the entry file holds, at any place, a piece whose lowered form
  is one of the terminal-ui markers, the classification is \<^verbatim>\<open>tui\<close>, whatever the rest
  of the text (any other marker included) and whatever the directory holds.
\<close>

theorem tui_marker_wins:
  assumes "m \<in> set tui_markers" and "lower s = m"
  shows "determine_app_type (pre @ s @ post) app_path = ''tui''"
proof -
  have "lower (pre @ s @ post) = lower pre @ m @ lower post"
    using assms(2) by (simp add: lower_def)
  then have "contains (lower (pre @ s @ post)) m"
    by (simp add: contains_infix)
  with assms(1) have "any_in tui_markers (lower (pre @ s @ post))"
    by (auto simp: any_in_def list_ex_iff)
  then show ?thesis by (simp add: determine_app_type_def)
qed

theorem tui_marker_wins_witness:
  "''textual.app'' \<in> set tui_markers \<and> lower ''Textual.App'' = ''textual.app'' \<and>
   determine_app_type (''import tkinter, typer.Typer; from '' @ ''Textual.App'' @ '' import fastapi'')
     \<lparr>entry_name = ''x'', is_dir = True, main_py = None, has_templates = True,
      has_static = True\<rparr> = ''tui''"
proof -
  have h1: "''textual.app'' \<in> set tui_markers" by (simp add: tui_markers_def)
  have h2: "lower ''Textual.App'' = ''textual.app''" by code_simp
  show ?thesis using tui_marker_wins[OF h1 h2] h1 h2 by blast
qed

lemma distinct_map_insort_key:
  "distinct (map g (insort_key f x xs)) \<longleftrightarrow> g x \<notin> g ` set xs \<and> distinct (map g xs)"
  by (induction xs) (auto simp: set_insort_key)

lemma distinct_map_sort_key: "distinct (map g (sort_key f xs)) \<longleftrightarrow> distinct (map g xs)"
  by (induction xs) (simp_all add: distinct_map_insort_key)

lemma name_analyze_app: "analyze_app e = Some x \<Longrightarrow> name x = entry_name e"
  by (auto simp: analyze_app_def Let_def split: option.splits text_file.splits)

lemma name_analyze_script: "analyze_script e = Some x \<Longrightarrow> name x = stem (file_name e)"
  by (auto simp: analyze_script_def split: text_file.splits)

lemma map_name_map_filter:
  "(\<And>e x. f e = Some x \<Longrightarrow> name x = g e) \<Longrightarrow>
   map name (List.map_filter f es) = map g (filter (\<lambda>e. f e \<noteq> None) es)"
  by (induction es) (auto simp: List.map_filter_simps split: option.splits)

lemma scanned_app_iff:
  "scanned_app e \<longleftrightarrow>
     (is_dir e \<and> entry_name e \<noteq> ''__pycache__'') \<and> analyze_app e \<noteq> None"
  by (auto simp: scanned_app_def analyze_app_def Let_def split: option.splits text_file.splits)

lemma scanned_script_iff:
  "scanned_script e \<longleftrightarrow>
     (endswith (file_name e) ''.py'' \<and> file_name e \<noteq> ''__init__.py'') \<and>
     analyze_script e \<noteq> None"
  by (auto simp: scanned_script_def analyze_script_def split: text_file.splits)

lemma filter_scanned_app:
  "filter (\<lambda>e. analyze_app e \<noteq> None)
     (filter (\<lambda>e. is_dir e \<and> entry_name e \<noteq> ''__pycache__'') es) =
   filter scanned_app es"
  by (induction es) (simp_all add: scanned_app_iff)

lemma filter_scanned_script:
  "filter (\<lambda>e. analyze_script e \<noteq> None)
     (filter (\<lambda>e. endswith (file_name e) ''.py'' \<and> file_name e \<noteq> ''__init__.py'') es) =
   filter scanned_script es"
  by (induction es) (simp_all add: scanned_script_iff)

lemma names_scan_apps:
  "map name (scan_apps root) =
     map entry_name
       (filter scanned_app (case apps_dir root of None \<Rightarrow> [] | Some entries \<Rightarrow> entries))"
proof (cases "apps_dir root")
  case None
  then show ?thesis by (simp add: scan_apps_def)
next
  case (Some es)
  have "map name (scan_apps root) =
    map entry_name (filter (\<lambda>e. analyze_app e \<noteq> None)
      (filter (\<lambda>e. is_dir e \<and> entry_name e \<noteq> ''__pycache__'') es))"
    by (simp only: scan_apps_def Some option.case
        map_name_map_filter[of analyze_app entry_name, OF name_analyze_app])
  also have "\<dots> = map entry_name (filter scanned_app es)"
    by (simp only: filter_scanned_app)
  finally show ?thesis by (simp add: Some)
qed

lemma names_scan_scripts:
  "map name (scan_scripts root) =
     map (\<lambda>e. stem (file_name e))
       (filter scanned_script
          (case scripts_dir root of None \<Rightarrow> [] | Some entries \<Rightarrow> entries))"
proof (cases "scripts_dir root")
  case None
  then show ?thesis by (simp add: scan_scripts_def)
next
  case (Some es)
  have "map name (scan_scripts root) =
    map (\<lambda>e. stem (file_name e)) (filter (\<lambda>e. analyze_script e \<noteq> None)
      (filter (\<lambda>e. endswith (file_name e) ''.py'' \<and> file_name e \<noteq> ''__init__.py'') es))"
    by (simp only: scan_scripts_def Some option.case
        map_name_map_filter[of analyze_script "\<lambda>e. stem (file_name e)", OF name_analyze_script])
  also have "\<dots> = map (\<lambda>e. stem (file_name e)) (filter scanned_script es)"
    by (simp only: filter_scanned_script)
  finally show ?thesis by (simp add: Some)
qed

lemma names_scanned:
  "map name (scan_apps root @ scan_scripts root) = candidate_names root"
  by (simp add: names_scan_apps names_scan_scripts candidate_names_def)

text \<open>
  C5 as stated fails: a directory \<^verbatim>\<open>apps/foo\<close> and a script \<^verbatim>\<open>scripts/foo.py\<close> give two
  descriptors of the name \<^verbatim>\<open>foo\<close> in one scan.
\<close>

theorem app_and_script_share_name:
  "map name (discover_apps foo_project) = [''foo'', ''foo'']"
  by code_simp

text \<open>
  C5, amended. The descriptors of one scan have pairwise distinct names whenever the
  candidates the scan turns into descriptors have: the directories of \<^verbatim>\<open>apps/\<close>, other
  than \<^verbatim>\<open>__pycache__\<close>, that hold a readable \<^verbatim>\<open>main.py\<close>, each under its own name, and
  the readable \<^verbatim>\<open>*.py\<close> files of \<^verbatim>\<open>scripts/\<close>, other than \<^verbatim>\<open>__init__.py\<close>, each
  under its stem. Entries the scan passes over do not count.
\<close>

theorem distinct_names:
  assumes "distinct (candidate_names root)"
  shows "distinct (map name (discover_apps root))"
proof -
  have "distinct (map name (scan_apps root @ scan_scripts root))"
    using assms by (simp only: names_scanned)
  then show ?thesis
    by (simp only: discover_apps_def distinct_map_sort_key)
qed

theorem distinct_names_witness:
  "distinct (candidate_names tools_project) \<and>
   distinct (map name (discover_apps tools_project)) \<and>
   map name (discover_apps tools_project) = [''tool'', ''docs'', ''web'']"
proof -
  have h: "distinct (candidate_names tools_project)" by code_simp
  have n: "map name (discover_apps tools_project) = [''tool'', ''docs'', ''web'']"
    by code_simp
  show ?thesis using distinct_names[OF h] h n by simp
qed

text \<open>
  C9. The descriptors of a scan are in ascending order of the pair (type, name).
\<close>

theorem discover_apps_sorted:
  "sorted (map (\<lambda>x. (type x, name x)) (discover_apps root))"
  by (simp add: discover_apps_def)

lemma digit_value_nonneg: "0 \<le> digit_value c"
  by (simp add: digit_value_def)

lemma foldl_digits_nonneg: "0 \<le> n \<Longrightarrow> 0 \<le> foldl (\<lambda>n c. 10 * n + digit_value c) n ds"
  by (induction ds arbitrary: n) (simp_all add: digit_value_nonneg)

lemma int_of_digits_nonneg: "0 \<le> int_of_digits ds"
  by (simp add: int_of_digits_def foldl_digits_nonneg)

lemma extract_port_loop_nonneg: "extract_port_loop ps content = Some p \<Longrightarrow> 0 \<le> p"
  by (induction ps)
     (auto simp: py_int_def int_of_digits_nonneg split: option.splits sum.splits if_splits)

lemma port_analyze_app:
  "analyze_app e = Some x \<Longrightarrow> port x = Some p \<Longrightarrow> type x = ''web'' \<and> 0 \<le> p"
  by (auto simp: analyze_app_def Let_def extract_port_def
          split: option.splits text_file.splits if_splits dest: extract_port_loop_nonneg)

lemma port_analyze_script: "analyze_script e = Some x \<Longrightarrow> port x = None"
  by (auto simp: analyze_script_def split: text_file.splits)

lemma set_map_filter_iff: "x \<in> set (List.map_filter f es) \<longleftrightarrow> (\<exists>e \<in> set es. f e = Some x)"
  by (induction es) (auto simp: List.map_filter_simps split: option.splits)

text \<open>
  C6 as stated fails: the text \<^verbatim>\<open>port=0\<close> in a web application gives the port 0, which
  is not positive.
\<close>

theorem port_zero:
  "map type (discover_apps foo_project) = [''script'', ''web''] \<and>
   map port (discover_apps foo_project) = [None, Some 0]"
  by code_simp

text \<open>
  C6, amended. In every descriptor of a scan, a port is present only when the type is
  \<^verbatim>\<open>web\<close>, and a port that is present is a natural number (zero included).
\<close>

theorem port_only_web_nonneg:
  assumes "x \<in> set (discover_apps root)" and "port x = Some p"
  shows "type x = ''web'' \<and> 0 \<le> p"
proof -
  from assms(1) have "x \<in> set (scan_apps root) \<or> x \<in> set (scan_scripts root)"
    by (simp add: discover_apps_def)
  then show ?thesis
  proof
    assume "x \<in> set (scan_apps root)"
    then obtain e where "analyze_app e = Some x"
      by (auto simp: scan_apps_def set_map_filter_iff split: option.splits)
    with assms(2) show ?thesis by (rule port_analyze_app[rotated])
  next
    assume "x \<in> set (scan_scripts root)"
    then obtain e where "analyze_script e = Some x"
      by (auto simp: scan_scripts_def set_map_filter_iff split: option.splits)
    with assms(2) show ?thesis by (simp add: port_analyze_script)
  qed
qed

theorem port_only_web_nonneg_witness:
  "api_info \<in> set (discover_apps api_project) \<and> port api_info = Some 8000 \<and>
   type api_info = ''web'' \<and> (0 :: int) \<le> 8000"
proof -
  have h1: "api_info \<in> set (discover_apps api_project)" by code_simp
  have h2: "port api_info = Some 8000" by (simp add: api_info_def)
  show ?thesis using port_only_web_nonneg[OF h1 h2] h1 h2 by simp
qed

end
